theory Spec2Isabelle
  imports Complex_Main "HOL-Library.Multiset"
begin

section \<open>The wallet service of ybank.me-wallet\<close>

text \<open>
  A shallow embedding of \<^verbatim>\<open>services/walletService.ts\<close>: the balance queries
  \<^verbatim>\<open>getETHBalance\<close> and \<^verbatim>\<open>getUSDCBalance\<close>, and the transaction-history
  reconstruction \<^verbatim>\<open>getRecentTransactions\<close>.

  JavaScript numbers that hold block numbers and timestamps are \<open>int\<close>; the
  \<^verbatim>\<open>uint256\<close> token amounts (a \<^verbatim>\<open>bigint\<close>) and log indices are \<open>nat\<close>. A thrown
  value is an \<open>error\<close>; the outcome of an asynchronous call is \<open>error + 'a\<close>, with
  \<open>Inl\<close> for a rejected promise.
\<close>

subsection \<open>Data\<close>

datatype error = Thrown string

text \<open>\<^verbatim>\<open>types.ts\<close>: the view model handed to the UI.\<close>

datatype direction = In | Out

datatype txStatus = Confirmed | Pending | Failed

record Transaction =
  hash :: string
  type :: direction
  amount :: string
  timestamp :: int
  status :: txStatus
  to :: "string option"
  "from" :: "string option"

text \<open>
  An \<^verbatim>\<open>ethers.EventLog\<close> of the \<^verbatim>\<open>Transfer(from, to, value)\<close> event: \<open>args\<close> holds
  \<^verbatim>\<open>[from, to, value]\<close>.
\<close>

record EventLog =
  transactionHash :: string
  index :: nat
  blockNumber :: int
  args :: "string \<times> string \<times> nat"

definition arg0 :: "EventLog \<Rightarrow> string" where
  "arg0 lg = fst (args lg)"

definition arg1 :: "EventLog \<Rightarrow> string" where
  "arg1 lg = fst (snd (args lg))"

definition arg2 :: "EventLog \<Rightarrow> nat" where
  "arg2 lg = snd (snd (args lg))"

text \<open>The part of an \<^verbatim>\<open>ethers.Block\<close> that is read: its timestamp in seconds.\<close>

record Block =
  blockTimestamp :: int

text \<open>
  \<^verbatim>\<open>contract.filters.Transfer(from, to)\<close>: each topic is either \<^verbatim>\<open>null\<close> (any) or an
  address.
\<close>

datatype filter = Transfer "string option" "string option"

subsection \<open>Promises\<close>

text \<open>
  A promise is modelled by the delay after which it settles and the outcome it
  settles with. Delays only decide the order in which the members of one
  \<^verbatim>\<open>Promise.all\<close> complete.
\<close>

type_synonym 'a promise = "nat \<times> 'a"

text \<open>
  The read-API behind \<^verbatim>\<open>getProvider()\<close> and the USDC contract object: every
  request answers with a promise. \<open>dateNow i\<close> is what \<^verbatim>\<open>Date.now()\<close> returns while
  the \<open>i\<close>-th deduplicated log is mapped to its Transaction.
\<close>

record api =
  getBlockNumber :: "(error + int) promise"
  queryFilter :: "filter \<Rightarrow> int \<Rightarrow> int \<Rightarrow> (error + EventLog list) promise"
  getBlock :: "int \<Rightarrow> (error + Block option) promise"
  getBalance :: "string \<Rightarrow> (error + nat) promise"
  balanceOf :: "string \<Rightarrow> (error + nat) promise"
  dateNow :: "nat \<Rightarrow> int"

text \<open>\<^verbatim>\<open>try { body } catch (error) { handler }\<close> around an awaited outcome.\<close>

definition try_catch :: "(error + 'a) \<Rightarrow> (error \<Rightarrow> error + 'a) \<Rightarrow> error + 'a" where
  "try_catch body handler = (case body of Inl e \<Rightarrow> handler e | Inr v \<Rightarrow> Inr v)"

text \<open>\<^verbatim>\<open>promise.catch(e => fallback)\<close>: a rejection becomes the fallback value.\<close>

definition catch :: "(error + 'a) promise \<Rightarrow> (error \<Rightarrow> 'a) \<Rightarrow> 'a promise" where
  "catch p handler = (fst p, case snd p of Inl e \<Rightarrow> handler e | Inr v \<Rightarrow> v)"

text \<open>
  The order in which the members of a \<^verbatim>\<open>Promise.all\<close> settle: by delay, members
  of equal delay in the order they were started.
\<close>

definition completionOrder :: "nat list \<Rightarrow> nat list" where
  "completionOrder delays = sort_key (\<lambda>i. delays ! i) [0..<length delays]"

text \<open>
  \<^verbatim>\<open>Promise.all\<close> over promises that do not reject: each member stores its value
  in its own slot when it settles; the whole settles with the slots once the last
  member has.
\<close>

definition promiseAll :: "'a promise list \<Rightarrow> 'a list promise" where
  "promiseAll ps =
     (fold max (map fst ps) 0,
      map the (fold (\<lambda>i slots. slots[i := Some (snd (ps ! i))])
                 (completionOrder (map fst ps)) (replicate (length ps) None)))"

subsection \<open>Strings and numbers of the runtime\<close>

text \<open>\<^verbatim>\<open>String.prototype.toLowerCase\<close> on the ASCII letters of an address.\<close>

definition toLowerChar :: "char \<Rightarrow> char" where
  "toLowerChar c =
     (case List.find (\<lambda>p. fst p = c) (zip ''ABCDEFGHIJKLMNOPQRSTUVWXYZ'' ''abcdefghijklmnopqrstuvwxyz'') of
        Some p \<Rightarrow> snd p | None \<Rightarrow> c)"

definition toLowerCase :: "string \<Rightarrow> string" where
  "toLowerCase s = map toLowerChar s"

text \<open>Decimal rendering of a non-negative integer (\<^verbatim>\<open>toString()\<close>).\<close>

definition digit_char :: "nat \<Rightarrow> char" where
  "digit_char d = ''0123456789'' ! d"

function show_nat :: "nat \<Rightarrow> string" where
  "show_nat n = (if n < 10 then [digit_char n] else show_nat (n div 10) @ [digit_char (n mod 10)])"
  by pat_completeness auto
termination
  by (relation "measure id") auto

declare show_nat.simps [simp del]

definition is_digit :: "char \<Rightarrow> bool" where
  "is_digit c = (c \<in> set ''0123456789'')"

definition digit_val :: "char \<Rightarrow> nat" where
  "digit_val c = length (takeWhile (\<lambda>d. d \<noteq> c) ''0123456789'')"

definition digits_val :: "string \<Rightarrow> nat" where
  "digits_val s = foldl (\<lambda>acc c. 10 * acc + digit_val c) 0 s"

text \<open>
  \<^verbatim>\<open>ethers.formatUnits(value, decimals)\<close> for a non-negative value, following the
  library's fixed-point printer: pad with zeros to at least \<open>decimals + 1\<close> digits,
  insert the point, trim zeros of the whole part leaving one digit, trim zeros of the
  fraction leaving one digit.
\<close>

function padZeros :: "nat \<Rightarrow> string \<Rightarrow> string" where
  "padZeros decimals str = (if length str \<le> decimals then padZeros decimals (CHR ''0'' # str) else str)"
  by pat_completeness auto
termination
  by (relation "measure (\<lambda>(d, s). Suc d - length s)") auto

declare padZeros.simps [simp del]

fun trimWhole :: "string \<Rightarrow> string" where
  "trimWhole (a # b # s) = (if a = CHR ''0'' \<and> b \<noteq> CHR ''.'' then trimWhole (b # s) else a # b # s)"
| "trimWhole [a] = (if a = CHR ''0'' then [] else [a])"
| "trimWhole [] = []"

definition trimFraction :: "string \<Rightarrow> string" where
  "trimFraction str = rev (trimWhole (rev str))"

definition formatUnits :: "nat \<Rightarrow> nat \<Rightarrow> string" where
  "formatUnits val decimals =
     (if decimals = 0 then show_nat val
      else let str = padZeros decimals (show_nat val);
               point = length str - decimals;
               str = take point str @ ''.'' @ drop point str
           in trimFraction (trimWhole str))"

definition formatEther :: "nat \<Rightarrow> string" where
  "formatEther wei = formatUnits wei 18"

text \<open>
  \<^verbatim>\<open>parseFloat\<close> on an unsigned decimal literal without exponent, the only shape
  \<open>formatUnits\<close> prints: the longest prefix \<open>digits [. digits]\<close> is read, and a string
  with no digit there is \<^verbatim>\<open>NaN\<close> (\<open>None\<close>). The value is kept exact; the nearest
  double has the same sign.
\<close>

definition parseFloat :: "string \<Rightarrow> rat option" where
  "parseFloat s =
     (let whole = takeWhile is_digit s;
          rest = dropWhile is_digit s;
          frac = (case rest of [] \<Rightarrow> [] | c # t \<Rightarrow> if c = CHR ''.'' then takeWhile is_digit t else [])
      in if whole = [] \<and> frac = [] then None
         else Some (of_nat (digits_val whole) + of_nat (digits_val frac) / 10 ^ length frac))"

text \<open>\<^verbatim>\<open>x > 0\<close> on a number that may be \<^verbatim>\<open>NaN\<close>.\<close>

definition gt0 :: "rat option \<Rightarrow> bool" where
  "gt0 x = (case x of None \<Rightarrow> False | Some q \<Rightarrow> 0 < q)"

text \<open>\<^verbatim>\<open>Array.prototype.slice(i, j)\<close> for \<open>0 \<le> i \<le> j\<close>.\<close>

definition slice :: "nat \<Rightarrow> nat \<Rightarrow> 'a list \<Rightarrow> 'a list" where
  "slice i j xs = take (j - i) (drop i xs)"

text \<open>
  A JavaScript \<^verbatim>\<open>Map\<close> keeps its keys in insertion order; \<^verbatim>\<open>set\<close> on a key that
  is present replaces the value in place.
\<close>

fun mapSet :: "'k \<Rightarrow> 'v \<Rightarrow> ('k \<times> 'v) list \<Rightarrow> ('k \<times> 'v) list" where
  "mapSet k v [] = [(k, v)]"
| "mapSet k v (p # ps) = (if fst p = k then (k, v) # ps else p # mapSet k v ps)"

definition mapValues :: "('k \<times> 'v) list \<Rightarrow> 'v list" where
  "mapValues m = map snd m"

text \<open>\<^verbatim>\<open>[...new Set(xs)]\<close>: the distinct elements in order of first occurrence.\<close>

definition setAdd :: "'a \<Rightarrow> 'a list \<Rightarrow> 'a list" where
  "setAdd x s = (if x \<in> set s then s else s @ [x])"

definition newSet :: "'a list \<Rightarrow> 'a list" where
  "newSet xs = fold setAdd xs []"

text \<open>
  \<^verbatim>\<open>Array.prototype.sort(compare)\<close>: a stable sort; \<open>x\<close> goes before the first \<open>y\<close>
  with \<open>compare x y \<le> 0\<close>.
\<close>

fun insertBy :: "('a \<Rightarrow> 'a \<Rightarrow> int) \<Rightarrow> 'a \<Rightarrow> 'a list \<Rightarrow> 'a list" where
  "insertBy compare x [] = [x]"
| "insertBy compare x (y # ys) = (if compare x y \<le> 0 then x # y # ys else y # insertBy compare x ys)"

definition sortBy :: "('a \<Rightarrow> 'a \<Rightarrow> int) \<Rightarrow> 'a list \<Rightarrow> 'a list" where
  "sortBy compare xs = foldr (insertBy compare) xs []"

subsection \<open>Balances\<close>

definition getETHBalance :: "api \<Rightarrow> string \<Rightarrow> error + string" where
  "getETHBalance provider address =
     try_catch
       (case snd (getBalance provider address) of
          Inl e \<Rightarrow> Inl e
        | Inr balance \<Rightarrow> Inr (formatEther balance))
       (\<lambda>error. Inr ''0.00'')"

definition getUSDCBalance :: "api \<Rightarrow> string \<Rightarrow> error + string" where
  "getUSDCBalance provider address =
     try_catch
       (let decimals = 6 in
        case snd (balanceOf provider address) of
          Inl e \<Rightarrow> Inl e
        | Inr balance \<Rightarrow> Inr (formatUnits balance decimals))
       (\<lambda>error. Inr ''0.00'')"

subsection \<open>Recent transactions\<close>

definition SCAN_RANGE :: int where
  "SCAN_RANGE = 7500"

definition CHUNK_SIZE :: int where
  "CHUNK_SIZE = 2500"

definition BATCH_SIZE :: nat where
  "BATCH_SIZE = 3"

definition requestChunkSize :: nat where
  "requestChunkSize = 10"

text \<open>
  The loop that builds \<^verbatim>\<open>ranges\<close>: \<^verbatim>\<open>for (let i = fromBlock; i < currentBlock; i += CHUNK_SIZE)\<close>,
  pushing \<^verbatim>\<open>{from: i, to: Math.min(i + CHUNK_SIZE - 1, currentBlock)}\<close>. A range is the
  pair \<open>(from, to)\<close>, both ends included.
\<close>

function rangesFrom :: "int \<Rightarrow> int \<Rightarrow> (int \<times> int) list" where
  "rangesFrom i currentBlock =
     (if i < currentBlock
      then (i, min (i + CHUNK_SIZE - 1) currentBlock) # rangesFrom (i + CHUNK_SIZE) currentBlock
      else [])"
  by pat_completeness auto
termination
  by (relation "measure (\<lambda>(i, c). nat (c - i))") (auto simp: CHUNK_SIZE_def)

declare rangesFrom.simps [simp del]

text \<open>
  The batch loop of \<^verbatim>\<open>fetchLogsChunked\<close>: three ranges are queried together, each
  query with its own \<^verbatim>\<open>.catch\<close> that yields \<^verbatim>\<open>[]\<close>; the chunks of a batch are
  appended to \<^verbatim>\<open>allLogs\<close> in the order of the batch. \<open>elapsed\<close> is the time the
  loop has awaited so far.
\<close>

function fetchLogsLoop ::
  "api \<Rightarrow> filter \<Rightarrow> (int \<times> int) list \<Rightarrow> nat \<Rightarrow> nat \<Rightarrow> EventLog list \<Rightarrow> EventLog list promise" where
  "fetchLogsLoop contract flt ranges i elapsed allLogs =
     (if i < length ranges
      then let batch = slice i (i + BATCH_SIZE) ranges;
               results = promiseAll (map (\<lambda>range.
                 catch (queryFilter contract flt (fst range) (snd range)) (\<lambda>e. [])) batch)
           in fetchLogsLoop contract flt ranges (i + BATCH_SIZE) (elapsed + fst results)
                (fold (\<lambda>chunk allLogs. allLogs @ chunk) (snd results) allLogs)
      else (elapsed, allLogs))"
  by pat_completeness auto
termination
  by (relation "measure (\<lambda>(c, f, ranges, i, e, l). length ranges - i)") (auto simp: BATCH_SIZE_def)

declare fetchLogsLoop.simps [simp del]

definition fetchLogsChunked :: "api \<Rightarrow> int \<Rightarrow> int \<Rightarrow> filter \<Rightarrow> EventLog list promise" where
  "fetchLogsChunked contract fromBlock currentBlock flt =
     fetchLogsLoop contract flt (rangesFrom fromBlock currentBlock) 0 0 []"

text \<open>The key of the deduplication map: \<^verbatim>\<open>`${log.transactionHash}-${log.index}`\<close>.\<close>

definition logKey :: "EventLog \<Rightarrow> string" where
  "logKey lg = transactionHash lg @ ''-'' @ show_nat (index lg)"

text \<open>
  One block-detail task: \<^verbatim>\<open>try { const block = await provider.getBlock(bn);
  if (block) blockMap[bn] = block.timestamp * 1000 } catch (e) { ... }\<close>. It writes
  \<^verbatim>\<open>blockMap\<close> when its request settles.
\<close>

definition storeBlock :: "api \<Rightarrow> int \<Rightarrow> (int \<rightharpoonup> int) \<Rightarrow> (int \<rightharpoonup> int)" where
  "storeBlock provider bn blockMap =
     (case snd (getBlock provider bn) of
        Inl e \<Rightarrow> blockMap
      | Inr None \<Rightarrow> blockMap
      | Inr (Some block) \<Rightarrow> blockMap(bn \<mapsto> blockTimestamp block * 1000))"

text \<open>
  The tasks of one chunk run together; their writes to \<^verbatim>\<open>blockMap\<close> happen in the
  order in which the requests settle.
\<close>

definition fetchBlockChunk :: "api \<Rightarrow> int list \<Rightarrow> (int \<rightharpoonup> int) \<Rightarrow> (int \<rightharpoonup> int)" where
  "fetchBlockChunk provider chunk blockMap =
     fold (\<lambda>i. storeBlock provider (chunk ! i))
       (completionOrder (map (\<lambda>bn. fst (getBlock provider bn)) chunk)) blockMap"

function fetchBlocksLoop :: "api \<Rightarrow> int list \<Rightarrow> nat \<Rightarrow> (int \<rightharpoonup> int) \<Rightarrow> (int \<rightharpoonup> int)" where
  "fetchBlocksLoop provider blockNumbers i blockMap =
     (if i < length blockNumbers
      then let chunk = slice i (i + requestChunkSize) blockNumbers
           in fetchBlocksLoop provider blockNumbers (i + requestChunkSize)
                (fetchBlockChunk provider chunk blockMap)
      else blockMap)"
  by pat_completeness auto
termination
  by (relation "measure (\<lambda>(p, bns, i, m). length bns - i)") (auto simp: requestChunkSize_def)

declare fetchBlocksLoop.simps [simp del]

text \<open>\<^verbatim>\<open>blockMap[bn] || now\<close>: a missing entry and the number 0 are both falsy.\<close>

definition orElse :: "int option \<Rightarrow> int \<Rightarrow> int" where
  "orElse v now = (case v of None \<Rightarrow> now | Some t \<Rightarrow> if t = 0 then now else t)"

text \<open>The callback of \<^verbatim>\<open>uniqueLogs.map\<close>.\<close>

definition toTransaction :: "string \<Rightarrow> (int \<rightharpoonup> int) \<Rightarrow> int \<Rightarrow> EventLog \<Rightarrow> Transaction" where
  "toTransaction address blockMap now lg =
     (let amount = formatUnits (arg2 lg) 6;
          isIn = (toLowerCase (arg1 lg) = toLowerCase address)
      in \<lparr> hash = transactionHash lg,
           type = (if isIn then In else Out),
           amount = amount,
           timestamp = orElse (blockMap (blockNumber lg)) now,
           status = Confirmed,
           to = Some (arg1 lg),
           from = Some (arg0 lg) \<rparr>)"

text \<open>
  \<^verbatim>\<open>contract.filters.Transfer(null, address)\<close> and
  \<^verbatim>\<open>contract.filters.Transfer(address, null)\<close>.
\<close>

definition filterIn :: "string \<Rightarrow> filter" where
  "filterIn address = Transfer None (Some address)"

definition filterOut :: "string \<Rightarrow> filter" where
  "filterOut address = Transfer (Some address) None"

text \<open>Everything after the logs of both filters have been merged.\<close>

definition uniqueLogsOf :: "EventLog list \<Rightarrow> EventLog list" where
  "uniqueLogsOf allLogs = mapValues (fold (\<lambda>lg m. mapSet (logKey lg) lg m) allLogs [])"

definition buildTransactions :: "api \<Rightarrow> string \<Rightarrow> EventLog list \<Rightarrow> Transaction list" where
  "buildTransactions provider address allLogs =
     (let uniqueLogs = uniqueLogsOf allLogs;
          blockNumbers = newSet (map blockNumber uniqueLogs);
          blockMap = fetchBlocksLoop provider blockNumbers 0 Map.empty;
          transactions = filter (\<lambda>tx. gt0 (parseFloat (amount tx)))
            (map (\<lambda>(i, lg). toTransaction address blockMap (dateNow provider i) lg)
               (enumerate 0 uniqueLogs))
      in sortBy (\<lambda>a b. timestamp b - timestamp a) transactions)"

text \<open>The body of the outer \<^verbatim>\<open>try\<close>: only the head-block lookup can throw out of it.\<close>

definition recentTransactionsBody :: "api \<Rightarrow> string \<Rightarrow> error + Transaction list" where
  "recentTransactionsBody provider address =
     (case snd (getBlockNumber provider) of
        Inl e \<Rightarrow> Inl e
      | Inr currentBlock \<Rightarrow>
          let fromBlock = max 0 (currentBlock - SCAN_RANGE)
          in case snd (promiseAll [fetchLogsChunked provider fromBlock currentBlock (filterIn address),
                                   fetchLogsChunked provider fromBlock currentBlock (filterOut address)]) of
               [logsIn, logsOut] \<Rightarrow> Inr (buildTransactions provider address (logsIn @ logsOut))
             | _ \<Rightarrow> Inl (Thrown ''TypeError''))"

definition getRecentTransactions :: "api \<Rightarrow> string \<Rightarrow> error + Transaction list" where
  "getRecentTransactions provider address =
     try_catch (recentTransactionsBody provider address) (\<lambda>error. Inr [])"

subsection \<open>Notions used in the proofs\<close>

text \<open>
  What one sub-range query contributes to \<^verbatim>\<open>allLogs\<close> once its \<^verbatim>\<open>.catch\<close> has run,
  what a block-detail task leaves in \<^verbatim>\<open>blockMap\<close> for its block, the merged list
  \<^verbatim>\<open>[...logsIn, ...logsOut]\<close>, and the deduplicated non-zero logs, each with its
  position in \<^verbatim>\<open>uniqueLogs\<close>, in the order of the returned list.
\<close>

definition chunkLogs :: "api \<Rightarrow> filter \<Rightarrow> int \<times> int \<Rightarrow> EventLog list" where
  "chunkLogs contract flt rg =
     (case snd (queryFilter contract flt (fst rg) (snd rg)) of Inl e \<Rightarrow> [] | Inr logs \<Rightarrow> logs)"

definition lookupBlock :: "api \<Rightarrow> int \<Rightarrow> int option" where
  "lookupBlock provider bn =
     (case snd (getBlock provider bn) of
        Inl e \<Rightarrow> None
      | Inr None \<Rightarrow> None
      | Inr (Some block) \<Rightarrow> Some (blockTimestamp block * 1000))"

definition mergedLogs :: "api \<Rightarrow> string \<Rightarrow> int \<Rightarrow> EventLog list" where
  "mergedLogs contract address currentBlock =
     (let ranges = rangesFrom (max 0 (currentBlock - SCAN_RANGE)) currentBlock
      in concat (map (chunkLogs contract (filterIn address)) ranges) @
         concat (map (chunkLogs contract (filterOut address)) ranges))"

definition survivors :: "api \<Rightarrow> EventLog list \<Rightarrow> (nat \<times> EventLog) list" where
  "survivors provider allLogs =
     sortBy (\<lambda>a b. orElse (lookupBlock provider (blockNumber (snd b))) (dateNow provider (fst b))
                 - orElse (lookupBlock provider (blockNumber (snd a))) (dateNow provider (fst a)))
       (filter (\<lambda>p. 0 < arg2 (snd p)) (enumerate 0 (uniqueLogsOf allLogs)))"

subsection \<open>A concrete read-API\<close>

text \<open>
  Head block 10000, so that the ranges 2500-4999, 5000-7499 and 7500-9999 are
  queried. The recipient filter delivers an inbound transfer and a self-transfer and
  fails on the last range; the sender filter delivers the same self-transfer, a
  zero-value transfer and an outbound transfer. The detail lookup of block 6000 fails.
\<close>

definition demoAddress :: string where
  "demoAddress = ''0xabcd''"

definition inbound :: EventLog where
  "inbound = \<lparr> transactionHash = ''0xa1'', index = 0, blockNumber = 3000,
               args = (''0x1111'', ''0xABCD'', 5000000) \<rparr>"

definition selfTransfer :: EventLog where
  "selfTransfer = \<lparr> transactionHash = ''0xa2'', index = 1, blockNumber = 6000,
               args = (''0xabcd'', ''0xabcd'', 1500000) \<rparr>"

definition zeroValue :: EventLog where
  "zeroValue = \<lparr> transactionHash = ''0xa3'', index = 0, blockNumber = 6000,
               args = (''0xabcd'', ''0x2222'', 0) \<rparr>"

definition outbound :: EventLog where
  "outbound = \<lparr> transactionHash = ''0xa4'', index = 2, blockNumber = 8000,
               args = (''0xabcd'', ''0x2222'', 250000) \<rparr>"

definition demoQuery :: "filter \<Rightarrow> int \<Rightarrow> int \<Rightarrow> error + EventLog list" where
  "demoQuery flt a b =
     (if flt = filterIn demoAddress then
        (if a = 2500 then Inr [inbound]
         else if a = 5000 then Inr [selfTransfer]
         else Inl (Thrown ''rate limited''))
      else
        (if a = 5000 then Inr [selfTransfer, zeroValue]
         else if a = 7500 then Inr [outbound]
         else Inr []))"

definition demoBlock :: "int \<Rightarrow> error + Block option" where
  "demoBlock bn =
     (if bn = 3000 then Inr (Some \<lparr> blockTimestamp = 1700000000 \<rparr>)
      else if bn = 8000 then Inr (Some \<lparr> blockTimestamp = 1700010000 \<rparr>)
      else Inl (Thrown ''timeout''))"

definition demoApi :: api where
  "demoApi = \<lparr> getBlockNumber = (1, Inr 10000),
               queryFilter = (\<lambda>flt a b. (nat (b mod 7), demoQuery flt a b)),
               getBlock = (\<lambda>bn. (nat (bn mod 3), demoBlock bn)),
               getBalance = (\<lambda>a. (1, Inl (Thrown ''network''))),
               balanceOf = (\<lambda>a. (1, Inr 1500000)),
               dateNow = (\<lambda>i. 1800000000000 + int i) \<rparr>"

definition demoResult :: "Transaction list" where
  "demoResult =
     [\<lparr> hash = ''0xa2'', type = In, amount = ''1.5'', timestamp = 1800000000001,
         status = Confirmed, to = Some ''0xabcd'', from = Some ''0xabcd'' \<rparr>,
      \<lparr> hash = ''0xa4'', type = Out, amount = ''0.25'', timestamp = 1700010000000,
         status = Confirmed, to = Some ''0x2222'', from = Some ''0xabcd'' \<rparr>,
      \<lparr> hash = ''0xa1'', type = In, amount = ''5.0'', timestamp = 1700000000000,
         status = Confirmed, to = Some ''0xABCD'', from = Some ''0x1111'' \<rparr>]"




text \<open>
  A read-API with the head at block 1,000,000 and one inbound transfer in that very
  block: a query delivers it exactly when its range holds block 1,000,000.
\<close>

definition headTransfer :: EventLog where
  "headTransfer = \<lparr> transactionHash = ''0xc1'', index = 0, blockNumber = 1000000,
               args = (''0x1111'', ''0xabcd'', 5000000) \<rparr>"

definition headApi :: api where
  "headApi = demoApi\<lparr>getBlockNumber := (1, Inr 1000000),
     queryFilter := \<lambda>flt a b. (1, if flt = filterIn demoAddress \<and> a \<le> 1000000 \<and> 1000000 \<le> b
                                    then Inr [headTransfer] else Inr [])\<rparr>"

section \<open>Properties\<close>

subsection \<open>Promises and the two fetch loops\<close>

lemma set_completionOrder: "set (completionOrder delays) = {0..<length delays}"
  by (simp add: completionOrder_def)

lemma fold_slots_nth:
  "j < length slots \<Longrightarrow>
   fold (\<lambda>i slots. slots[i := Some (f i)]) js slots ! j =
     (if j \<in> set js then Some (f j) else slots ! j)"
proof (induction js arbitrary: slots)
  case Nil
  then show ?case by simp
next
  case (Cons a js)
  have "j < length (slots[a := Some (f a)])" using Cons.prems by simp
  from Cons.IH[OF this] show ?case using Cons.prems
    by (auto simp: nth_list_update)
qed

lemma length_fold_slots:
  "length (fold (\<lambda>i slots. slots[i := Some (f i)]) js slots) = length slots"
  by (induction js arbitrary: slots) auto

lemma snd_promiseAll: "snd (promiseAll ps) = map snd ps"
proof (rule nth_equalityI)
  show "length (snd (promiseAll ps)) = length (map snd ps)"
    by (simp add: promiseAll_def length_fold_slots)
next
  fix j assume "j < length (snd (promiseAll ps))"
  then have j: "j < length ps" by (simp add: promiseAll_def length_fold_slots)
  then show "snd (promiseAll ps) ! j = map snd ps ! j"
    by (simp add: promiseAll_def length_fold_slots fold_slots_nth set_completionOrder)
qed

lemma snd_catch_queryFilter:
  "snd (catch (queryFilter contract flt (fst rg) (snd rg)) (\<lambda>e. [])) = chunkLogs contract flt rg"
  by (simp add: catch_def chunkLogs_def)

lemma fold_append_chunks: "fold (\<lambda>chunk allLogs. allLogs @ chunk) chunks acc = acc @ concat chunks"
  by (induction chunks arbitrary: acc) auto

lemma snd_fetchLogsLoop:
  "snd (fetchLogsLoop contract flt ranges i elapsed allLogs) =
     allLogs @ concat (map (chunkLogs contract flt) (drop i ranges))"
proof (induction contract flt ranges i elapsed allLogs rule: fetchLogsLoop.induct)
  case (1 contract flt ranges i elapsed allLogs)
  show ?case
  proof (cases "i < length ranges")
    case True
    have split: "drop i ranges = slice i (i + BATCH_SIZE) ranges @ drop (i + BATCH_SIZE) ranges"
      by (simp add: slice_def add.commute[of i] flip: drop_drop)
    have chunks: "snd (promiseAll (map (\<lambda>rg.
                 catch (queryFilter contract flt (fst rg) (snd rg)) (\<lambda>e. [])) (slice i (i + BATCH_SIZE) ranges)))
        = map (chunkLogs contract flt) (slice i (i + BATCH_SIZE) ranges)"
      by (simp add: snd_promiseAll snd_catch_queryFilter)
    have step: "fetchLogsLoop contract flt ranges i elapsed allLogs =
        fetchLogsLoop contract flt ranges (i + BATCH_SIZE)
          (elapsed + fst (promiseAll (map (\<lambda>rg.
                 catch (queryFilter contract flt (fst rg) (snd rg)) (\<lambda>e. [])) (slice i (i + BATCH_SIZE) ranges))))
          (fold (\<lambda>chunk allLogs. allLogs @ chunk)
             (snd (promiseAll (map (\<lambda>rg.
                 catch (queryFilter contract flt (fst rg) (snd rg)) (\<lambda>e. [])) (slice i (i + BATCH_SIZE) ranges))))
             allLogs)"
      using True by (subst fetchLogsLoop.simps) (simp add: Let_def)
    have "snd (fetchLogsLoop contract flt ranges i elapsed allLogs) =
        fold (\<lambda>chunk allLogs. allLogs @ chunk)
             (snd (promiseAll (map (\<lambda>rg.
                 catch (queryFilter contract flt (fst rg) (snd rg)) (\<lambda>e. [])) (slice i (i + BATCH_SIZE) ranges))))
             allLogs
          @ concat (map (chunkLogs contract flt) (drop (i + BATCH_SIZE) ranges))"
      unfolding step by (rule "1.IH"[OF True refl refl])
    also have "\<dots> = (allLogs @ concat (map (chunkLogs contract flt) (slice i (i + BATCH_SIZE) ranges)))
          @ concat (map (chunkLogs contract flt) (drop (i + BATCH_SIZE) ranges))"
      unfolding chunks fold_append_chunks by simp
    also have "\<dots> = allLogs @ concat (map (chunkLogs contract flt) (drop i ranges))"
      by (subst split) simp
    finally show ?thesis .
  next
    case False
    then show ?thesis by (subst fetchLogsLoop.simps) simp
  qed
qed

lemma snd_fetchLogsChunked:
  "snd (fetchLogsChunked contract fromBlock currentBlock flt) =
     concat (map (chunkLogs contract flt) (rangesFrom fromBlock currentBlock))"
  by (simp add: fetchLogsChunked_def snd_fetchLogsLoop)

lemma storeBlock_apply:
  "storeBlock provider bn blockMap k =
     (if k = bn then (case lookupBlock provider bn of None \<Rightarrow> blockMap k | Some t \<Rightarrow> Some t) else blockMap k)"
  by (simp add: storeBlock_def lookupBlock_def split: sum.splits option.splits)

lemma fold_storeBlock_apply:
  "fold (\<lambda>i. storeBlock provider (chunk ! i)) js blockMap k =
     (if k \<in> (\<lambda>i. chunk ! i) ` set js
      then (case lookupBlock provider k of None \<Rightarrow> blockMap k | Some t \<Rightarrow> Some t)
      else blockMap k)"
  by (induction js arbitrary: blockMap) (auto simp: storeBlock_apply split: option.splits)

lemma fetchBlockChunk_apply:
  "fetchBlockChunk provider chunk blockMap k =
     (if k \<in> set chunk
      then (case lookupBlock provider k of None \<Rightarrow> blockMap k | Some t \<Rightarrow> Some t)
      else blockMap k)"
proof -
  have "(\<lambda>i. chunk ! i) ` {0..<length chunk} = set chunk"
    by (auto simp: set_conv_nth)
  then show ?thesis
    by (simp add: fetchBlockChunk_def fold_storeBlock_apply set_completionOrder)
qed

lemma fetchBlocksLoop_apply:
  "fetchBlocksLoop provider blockNumbers i blockMap k =
     (if k \<in> set (drop i blockNumbers)
      then (case lookupBlock provider k of None \<Rightarrow> blockMap k | Some t \<Rightarrow> Some t)
      else blockMap k)"
proof (induction provider blockNumbers i blockMap rule: fetchBlocksLoop.induct)
  case (1 provider blockNumbers i blockMap)
  show ?case
  proof (cases "i < length blockNumbers")
    case True
    have split: "drop i blockNumbers =
        slice i (i + requestChunkSize) blockNumbers @ drop (i + requestChunkSize) blockNumbers"
      by (simp add: slice_def add.commute[of i] flip: drop_drop)
    have step: "fetchBlocksLoop provider blockNumbers i blockMap =
        fetchBlocksLoop provider blockNumbers (i + requestChunkSize)
          (fetchBlockChunk provider (slice i (i + requestChunkSize) blockNumbers) blockMap)"
      using True by (subst fetchBlocksLoop.simps) (simp add: Let_def)
    have mem: "k \<in> set (drop i blockNumbers) \<longleftrightarrow>
        k \<in> set (slice i (i + requestChunkSize) blockNumbers) \<or>
        k \<in> set (drop (i + requestChunkSize) blockNumbers)"
      by (subst split) simp
    show ?thesis
      unfolding step "1.IH"[OF True refl] mem
      by (auto simp: fetchBlockChunk_apply split: option.splits)
  next
    case False
    then show ?thesis by (subst fetchBlocksLoop.simps) simp
  qed
qed

lemma fetchBlocks_apply:
  "fetchBlocksLoop provider blockNumbers 0 Map.empty k =
     (if k \<in> set blockNumbers then lookupBlock provider k else None)"
  by (simp add: fetchBlocksLoop_apply split: option.splits)

subsection \<open>Deduplication and sorting\<close>




lemma set_mapSet_subset: "set (mapSet k v m) \<subseteq> insert (k, v) (set m)"
  by (induction m) auto


lemma set_fold_mapSet_subset:
  "set (fold (\<lambda>lg m. mapSet (logKey lg) lg m) logs m) \<subseteq> set m \<union> (\<lambda>lg. (logKey lg, lg)) ` set logs"
proof (induction logs arbitrary: m)
  case Nil
  then show ?case by simp
next
  case (Cons a logs)
  show ?case using Cons.IH[of "mapSet (logKey a) a m"] set_mapSet_subset[of "logKey a" a m]
    by auto
qed


lemma uniqueLogsOf_entries:
  "(k, lg) \<in> set (fold (\<lambda>lg m. mapSet (logKey lg) lg m) logs []) \<Longrightarrow> k = logKey lg \<and> lg \<in> set logs"
  using set_fold_mapSet_subset[of logs "[]"] by auto

lemma uniqueLogsOf_subset: "set (uniqueLogsOf logs) \<subseteq> set logs"
  using uniqueLogsOf_entries by (fastforce simp: uniqueLogsOf_def mapValues_def)



lemma mset_insertBy: "mset (insertBy c x ys) = add_mset x (mset ys)"
  by (induction ys) auto

lemma mset_sortBy: "mset (sortBy c xs) = mset xs"
  by (induction xs) (auto simp: sortBy_def mset_insertBy)


lemma insertBy_map:
  "insertBy c (g x) (map g ys) = map g (insertBy (\<lambda>a b. c (g a) (g b)) x ys)"
  by (induction ys) auto

lemma sortBy_map: "sortBy c (map g xs) = map g (sortBy (\<lambda>a b. c (g a) (g b)) xs)"
  by (induction xs) (auto simp: sortBy_def insertBy_map)

lemma set_insertBy: "set (insertBy c x ys) = insert x (set ys)"
  by (induction ys) auto

lemma sorted_insertBy_timestamp:
  "sorted_wrt (\<lambda>a b. timestamp b \<le> timestamp a) ys \<Longrightarrow>
   sorted_wrt (\<lambda>a b. timestamp b \<le> timestamp a) (insertBy (\<lambda>a b. timestamp b - timestamp a) x ys)"
  by (induction ys) (auto simp: set_insertBy)

lemma sorted_sortBy_timestamp:
  "sorted_wrt (\<lambda>a b. timestamp b \<le> timestamp a) (sortBy (\<lambda>a b. timestamp b - timestamp a) xs)"
  by (induction xs) (auto simp: sortBy_def sorted_insertBy_timestamp)

lemma filter_map_comp: "filter P (map g xs) = map g (filter (\<lambda>x. P (g x)) xs)"
  by (induction xs) auto

subsection \<open>Decimal strings\<close>

lemma digit_cases: "d < 10 \<Longrightarrow> d = 0 \<or> d = 1 \<or> d = 2 \<or> d = 3 \<or> d = 4 \<or> d = 5 \<or> d = 6 \<or> d = 7 \<or> d = 8 \<or> d = (9::nat)"
  by arith

lemma is_digit_digit_char: "d < 10 \<Longrightarrow> is_digit (digit_char d)"
  by (drule digit_cases) (auto simp: is_digit_def digit_char_def)

lemma digit_val_digit_char: "d < 10 \<Longrightarrow> digit_val (digit_char d) = d"
  by (drule digit_cases) (auto simp: digit_val_def digit_char_def)

lemma digit_val_zero: "digit_val (CHR ''0'') = 0"
  by (simp add: digit_val_def)

lemma is_digit_zero: "is_digit (CHR ''0'')"
  by (simp add: is_digit_def)

lemma not_digit_point: "\<not> is_digit (CHR ''.'')"
  by (simp add: is_digit_def)


lemma digits_val_snoc: "digits_val (s @ [c]) = 10 * digits_val s + digit_val c"
  by (simp add: digits_val_def)

lemma digits_val_Nil: "digits_val [] = 0"
  by (simp add: digits_val_def)

lemma digits_val_append: "digits_val (a @ b) = digits_val a * 10 ^ length b + digits_val b"
proof (induction b rule: rev_induct)
  case Nil
  then show ?case by (simp add: digits_val_Nil)
next
  case (snoc x xs)
  have "digits_val (a @ xs @ [x]) = 10 * digits_val (a @ xs) + digit_val x"
    using digits_val_snoc[of "a @ xs" x] by simp
  then show ?case by (simp add: snoc.IH digits_val_snoc algebra_simps)
qed

lemma digits_val_zeros: "digits_val (replicate k (CHR ''0'')) = 0"
  by (induction k) (simp_all add: digits_val_def digit_val_zero)

lemma show_nat_digits: "list_all is_digit (show_nat n)"
proof (induction n rule: show_nat.induct)
  case (1 n)
  show ?case
  proof (cases "n < 10")
    case True
    then show ?thesis by (subst show_nat.simps) (simp add: is_digit_digit_char)
  next
    case False
    then show ?thesis using "1.IH"
      by (subst show_nat.simps) (simp add: is_digit_digit_char)
  qed
qed

lemma show_nat_nonempty: "show_nat n \<noteq> []"
  by (subst show_nat.simps) simp

lemma digits_val_show_nat: "digits_val (show_nat n) = n"
proof (induction n rule: show_nat.induct)
  case (1 n)
  show ?case
  proof (cases "n < 10")
    case True
    then show ?thesis
      by (subst show_nat.simps) (simp add: digits_val_def digit_val_digit_char)
  next
    case False
    then show ?thesis using "1.IH"
      by (subst show_nat.simps) (simp add: digits_val_snoc digit_val_digit_char)
  qed
qed


lemma padZeros_eq: "padZeros decimals str = replicate (Suc decimals - length str) (CHR ''0'') @ str"
proof (induction decimals str rule: padZeros.induct)
  case (1 decimals str)
  show ?case
  proof (cases "length str \<le> decimals")
    case True
    have "Suc decimals - length str = Suc (decimals - length str)"
      using True by simp
    then show ?thesis using True "1.IH"
      by (subst padZeros.simps) (simp add: replicate_append_same)
  next
    case False
    then show ?thesis by (subst padZeros.simps) simp
  qed
qed

lemma trimWhole_point:
  "w \<noteq> [] \<Longrightarrow> CHR ''.'' \<notin> set w \<Longrightarrow>
   \<exists>k w'. w = replicate k (CHR ''0'') @ w' \<and> w' \<noteq> [] \<and>
     trimWhole (w @ CHR ''.'' # rest) = w' @ CHR ''.'' # rest"
proof (induction w)
  case Nil
  then show ?case by simp
next
  case (Cons a w)
  note IH = Cons.IH and prems = Cons.prems
  show ?case
  proof (cases w)
    case Nil
    then have "trimWhole ((a # w) @ CHR ''.'' # rest) = [a] @ CHR ''.'' # rest" by simp
    then show ?thesis using Nil by (intro exI[of _ 0] exI[of _ "[a]"]) simp
  next
    case (Cons b w2)
    show ?thesis
    proof (cases "a = CHR ''0''")
      case True
      have bne: "b \<noteq> CHR ''.''" using prems Cons by auto
      have "w \<noteq> []" "CHR ''.'' \<notin> set w" using prems Cons by auto
      from IH[OF this] obtain k w' where
        kw: "w = replicate k (CHR ''0'') @ w'" "w' \<noteq> []"
            "trimWhole (w @ CHR ''.'' # rest) = w' @ CHR ''.'' # rest"
        by blast
      have "trimWhole ((a # w) @ CHR ''.'' # rest) = trimWhole (w @ CHR ''.'' # rest)"
        using True bne Cons by simp
      then show ?thesis using kw True
        by (intro exI[of _ "Suc k"] exI[of _ w']) simp
    next
      case False
      then have "trimWhole ((a # w) @ CHR ''.'' # rest) = (a # w) @ CHR ''.'' # rest"
        using Cons by simp
      then show ?thesis by (intro exI[of _ 0] exI[of _ "a # w"]) simp
    qed
  qed
qed

lemma trimFraction_point:
  assumes "f \<noteq> []" "CHR ''.'' \<notin> set f"
  shows "\<exists>k f'. f = f' @ replicate k (CHR ''0'') \<and> f' \<noteq> [] \<and>
     trimFraction (w @ CHR ''.'' # f) = w @ CHR ''.'' # f'"
proof -
  have "rev f \<noteq> []" "CHR ''.'' \<notin> set (rev f)" using assms by auto
  from trimWhole_point[OF this, of "rev w"] obtain k r where
    kr: "rev f = replicate k (CHR ''0'') @ r" "r \<noteq> []"
        "trimWhole (rev f @ CHR ''.'' # rev w) = r @ CHR ''.'' # rev w"
    by blast
  have "f = rev r @ replicate k (CHR ''0'')"
    using kr(1) by (metis rev_append rev_replicate rev_rev_ident)
  moreover have "trimFraction (w @ CHR ''.'' # f) = w @ CHR ''.'' # rev r"
    using kr(3) by (simp add: trimFraction_def)
  ultimately show ?thesis using kr(2)
    by (intro exI[of _ k] exI[of _ "rev r"]) simp
qed

lemma parseFloat_point:
  assumes "list_all is_digit w" "list_all is_digit f" "w \<noteq> []"
  shows "parseFloat (w @ CHR ''.'' # f) =
     Some (of_nat (digits_val w) + of_nat (digits_val f) / 10 ^ length f)"
proof -
  have w: "takeWhile is_digit (w @ CHR ''.'' # f) = w"
    using assms(1) by (simp add: takeWhile_tail not_digit_point list_all_iff)
  have d: "dropWhile is_digit (w @ CHR ''.'' # f) = CHR ''.'' # f"
    using assms(1) by (simp add: dropWhile_append3 not_digit_point list_all_iff)
  have f: "takeWhile is_digit f = f"
    using assms(2) by (simp add: list_all_iff)
  show ?thesis using assms(3) by (simp add: parseFloat_def w d f Let_def)
qed

lemma parseFloat_digits:
  assumes "list_all is_digit w" "w \<noteq> []"
  shows "parseFloat w = Some (of_nat (digits_val w))"
proof -
  have w: "takeWhile is_digit w = w" "dropWhile is_digit w = []"
    using assms(1) by (simp_all add: list_all_iff)
  show ?thesis using assms(2) by (simp add: parseFloat_def w Let_def digits_val_Nil)
qed

lemma parseFloat_formatUnits:
  "parseFloat (formatUnits val decimals) = Some (of_nat val / 10 ^ decimals)"
proof (cases "decimals = 0")
  case True
  then show ?thesis
    by (simp add: formatUnits_def parseFloat_digits show_nat_digits show_nat_nonempty digits_val_show_nat)
next
  case False
  define str where "str = padZeros decimals (show_nat val)"
  define p where "p = length str - decimals"
  define whole where "whole = take p str"
  define frac where "frac = drop p str"
  have str_eq: "str = replicate (Suc decimals - length (show_nat val)) (CHR ''0'') @ show_nat val"
    by (simp add: str_def padZeros_eq)
  have str_digits: "list_all is_digit str"
    using show_nat_digits[of val] by (auto simp: str_eq is_digit_zero list_all_iff)
  have str_val: "digits_val str = val"
    by (simp add: str_eq digits_val_append digits_val_zeros digits_val_show_nat)
  have str_len: "decimals < length str"
    by (simp add: str_eq)
  have whole_ne: "whole \<noteq> []" using str_len by (auto simp: whole_def p_def)
  have frac_len: "length frac = decimals" using str_len by (simp add: frac_def p_def)
  have frac_ne: "frac \<noteq> []" using frac_len False by auto
  have whole_digits: "list_all is_digit whole" and frac_digits: "list_all is_digit frac"
    using str_digits by (auto simp: whole_def frac_def list_all_iff dest: in_set_takeD in_set_dropD)
  have nopoint_w: "CHR ''.'' \<notin> set whole" and nopoint_f: "CHR ''.'' \<notin> set frac"
    using whole_digits frac_digits not_digit_point by (auto simp: list_all_iff)
  have val_split: "val = digits_val whole * 10 ^ decimals + digits_val frac"
    using digits_val_append[of whole frac] frac_len str_val by (simp add: whole_def frac_def)
  from trimWhole_point[OF whole_ne nopoint_w, of frac] obtain k w' where
    w': "whole = replicate k (CHR ''0'') @ w'" "w' \<noteq> []"
        "trimWhole (whole @ CHR ''.'' # frac) = w' @ CHR ''.'' # frac"
    by blast
  from trimFraction_point[OF frac_ne nopoint_f, of w'] obtain j f' where
    f': "frac = f' @ replicate j (CHR ''0'')" "f' \<noteq> []"
        "trimFraction (w' @ CHR ''.'' # frac) = w' @ CHR ''.'' # f'"
    by blast
  have fmt: "formatUnits val decimals = w' @ CHR ''.'' # f'"
    using False w'(3) f'(3)
    by (simp add: formatUnits_def Let_def str_def[symmetric] p_def[symmetric]
        whole_def[symmetric] frac_def[symmetric])
  have w'_digits: "list_all is_digit w'" using whole_digits w'(1)
    by (metis list_all_append)
  have f'_digits: "list_all is_digit f'" using frac_digits f'(1)
    by (metis list_all_append)
  have w'_val: "digits_val w' = digits_val whole"
    by (subst w'(1)) (simp add: digits_val_append digits_val_zeros)
  have f'_val: "digits_val frac = digits_val f' * 10 ^ j"
    by (subst f'(1)) (simp add: digits_val_append digits_val_zeros)
  have len: "decimals = length f' + j"
    using frac_len f'(1) by (metis length_append length_replicate)
  have "(of_nat (digits_val w') :: rat) + of_nat (digits_val f') / 10 ^ length f'
      = of_nat val / 10 ^ decimals"
    by (subst val_split) (simp add: w'_val f'_val len power_add field_simps)
  then show ?thesis
    by (simp add: fmt parseFloat_point[OF w'_digits f'_digits w'(2)])
qed

lemma gt0_formatUnits: "gt0 (parseFloat (formatUnits val decimals)) \<longleftrightarrow> 0 < val"
  by (simp add: parseFloat_formatUnits gt0_def zero_less_divide_iff)



subsection \<open>The shape of the result\<close>

lemma set_setAdd: "set (setAdd x s) = insert x (set s)"
  by (auto simp: setAdd_def)

lemma set_fold_setAdd: "set (fold setAdd xs s) = set xs \<union> set s"
  by (induction xs arbitrary: s) (auto simp: set_setAdd)

lemma set_newSet: "set (newSet xs) = set xs"
  by (simp add: newSet_def set_fold_setAdd)

lemma toTransaction_cong:
  "blockMap (blockNumber lg) = blockMap' (blockNumber lg) \<Longrightarrow>
   toTransaction address blockMap now lg = toTransaction address blockMap' now lg"
  by (simp add: toTransaction_def)

lemma gt0_amount_toTransaction:
  "gt0 (parseFloat (amount (toTransaction address blockMap now lg))) \<longleftrightarrow> 0 < arg2 lg"
  by (simp add: toTransaction_def gt0_formatUnits)

lemma timestamp_toTransaction:
  "timestamp (toTransaction address blockMap now lg) = orElse (blockMap (blockNumber lg)) now"
  by (simp add: toTransaction_def)

lemma buildTransactions_eq:
  "buildTransactions provider address allLogs =
     map (\<lambda>p. toTransaction address (lookupBlock provider) (dateNow provider (fst p)) (snd p))
       (survivors provider allLogs)"
proof -
  let ?U = "uniqueLogsOf allLogs"
  let ?bm = "fetchBlocksLoop provider (newSet (map blockNumber ?U)) 0 Map.empty"
  have bm: "?bm (blockNumber lg) = lookupBlock provider (blockNumber lg)" if "lg \<in> set ?U" for lg
    using that by (simp add: fetchBlocks_apply set_newSet)
  have eq: "map (\<lambda>(i, lg). toTransaction address ?bm (dateNow provider i) lg) (enumerate 0 ?U)
      = map (\<lambda>p. toTransaction address (lookupBlock provider) (dateNow provider (fst p)) (snd p))
          (enumerate 0 ?U)"
    by (rule map_cong[OF refl]) (auto simp: in_set_enumerate_eq intro!: toTransaction_cong bm)
  have "buildTransactions provider address allLogs =
      sortBy (\<lambda>a b. timestamp b - timestamp a)
        (filter (\<lambda>tx. gt0 (parseFloat (amount tx)))
          (map (\<lambda>p. toTransaction address (lookupBlock provider) (dateNow provider (fst p)) (snd p))
            (enumerate 0 ?U)))"
    unfolding buildTransactions_def Let_def eq ..
  also have "\<dots> = map (\<lambda>p. toTransaction address (lookupBlock provider) (dateNow provider (fst p)) (snd p))
       (survivors provider allLogs)"
    by (simp add: survivors_def filter_map_comp sortBy_map
        gt0_amount_toTransaction timestamp_toTransaction)
  finally show ?thesis .
qed

lemma recentTransactionsBody_eq:
  "recentTransactionsBody provider address =
     (case snd (getBlockNumber provider) of
        Inl e \<Rightarrow> Inl e
      | Inr currentBlock \<Rightarrow>
          Inr (buildTransactions provider address (mergedLogs provider address currentBlock)))"
  by (simp add: recentTransactionsBody_def Let_def snd_promiseAll snd_fetchLogsChunked mergedLogs_def
      split: sum.splits)

lemma getRecentTransactions_eq:
  "getRecentTransactions provider address =
     (case snd (getBlockNumber provider) of
        Inl e \<Rightarrow> Inr []
      | Inr currentBlock \<Rightarrow>
          Inr (buildTransactions provider address (mergedLogs provider address currentBlock)))"
  by (simp add: getRecentTransactions_def recentTransactionsBody_eq try_catch_def split: sum.splits)

lemma mset_survivors:
  "mset (survivors provider allLogs) =
     mset (filter (\<lambda>p. 0 < arg2 (snd p)) (enumerate 0 (uniqueLogsOf allLogs)))"
  by (simp add: survivors_def mset_sortBy)

lemma set_survivors:
  "set (survivors provider allLogs) =
     {p \<in> set (enumerate 0 (uniqueLogsOf allLogs)). 0 < arg2 (snd p)}"
  using mset_survivors[of provider allLogs, THEN arg_cong, of set_mset] by auto

lemma snd_survivors_subset: "snd ` set (survivors provider allLogs) \<subseteq> set (uniqueLogsOf allLogs)"
  by (auto simp: set_survivors in_set_enumerate_eq)


lemma mergedLogs_delivered:
  assumes "lg \<in> set (mergedLogs contract address currentBlock)"
  shows "\<exists>flt rg logs. flt \<in> {filterIn address, filterOut address} \<and>
           rg \<in> set (rangesFrom (max 0 (currentBlock - SCAN_RANGE)) currentBlock) \<and>
           snd (queryFilter contract flt (fst rg) (snd rg)) = Inr logs \<and> lg \<in> set logs"
proof -
  let ?rs = "rangesFrom (max 0 (currentBlock - SCAN_RANGE)) currentBlock"
  from assms obtain flt rg where
    f: "flt \<in> {filterIn address, filterOut address}" and r: "rg \<in> set ?rs"
    and l: "lg \<in> set (chunkLogs contract flt rg)"
    by (auto simp: mergedLogs_def Let_def)
  then obtain logs where "snd (queryFilter contract flt (fst rg) (snd rg)) = Inr logs" "lg \<in> set logs"
    by (cases "snd (queryFilter contract flt (fst rg) (snd rg))") (auto simp: chunkLogs_def)
  with f r show ?thesis by blast
qed


subsection \<open>The concrete read-API, evaluated\<close>

lemma ranges_demo: "rangesFrom (max 0 (10000 - SCAN_RANGE)) 10000 = [(2500, 4999), (5000, 7499), (7500, 9999)]"
  by (simp add: rangesFrom.simps SCAN_RANGE_def CHUNK_SIZE_def)

lemma merged_demo:
  "mergedLogs demoApi demoAddress 10000 = [inbound, selfTransfer, selfTransfer, zeroValue, outbound]"
  by (simp add: mergedLogs_def ranges_demo chunkLogs_def demoApi_def demoQuery_def filterIn_def
      filterOut_def)

lemma demo_keys:
  "logKey inbound = ''0xa1-0''" "logKey selfTransfer = ''0xa2-1''"
  "logKey zeroValue = ''0xa3-0''" "logKey outbound = ''0xa4-2''"
  by (simp_all add: logKey_def show_nat.simps digit_char_def
      inbound_def selfTransfer_def zeroValue_def outbound_def)

lemma unique_demo:
  "uniqueLogsOf [inbound, selfTransfer, selfTransfer, zeroValue, outbound] =
     [inbound, selfTransfer, zeroValue, outbound]"
  by (simp add: uniqueLogsOf_def mapValues_def demo_keys)

lemma demo_values:
  "arg2 inbound = 5000000" "arg2 selfTransfer = 1500000" "arg2 zeroValue = 0" "arg2 outbound = 250000"
  by (simp_all add: arg2_def inbound_def selfTransfer_def zeroValue_def outbound_def)

lemma demo_blocks:
  "lookupBlock demoApi (blockNumber inbound) = Some 1700000000000"
  "lookupBlock demoApi (blockNumber selfTransfer) = None"
  "lookupBlock demoApi (blockNumber zeroValue) = None"
  "lookupBlock demoApi (blockNumber outbound) = Some 1700010000000"
  by (simp_all add: lookupBlock_def demoApi_def demoBlock_def
      inbound_def selfTransfer_def zeroValue_def outbound_def)

lemma demo_now: "dateNow demoApi i = 1800000000000 + int i"
  by (simp add: demoApi_def)

lemma survivors_demo:
  "survivors demoApi [inbound, selfTransfer, selfTransfer, zeroValue, outbound] =
     [(1, selfTransfer), (3, outbound), (0, inbound)]"
  by (simp add: survivors_def unique_demo sortBy_def demo_values demo_blocks orElse_def demo_now)

lemma demo_amounts:
  "formatUnits 5000000 6 = ''5.0''" "formatUnits 1500000 6 = ''1.5''" "formatUnits 250000 6 = ''0.25''"
  by (simp_all add: formatUnits_def show_nat.simps padZeros.simps trimFraction_def digit_char_def Let_def)

lemma demo_eval: "getRecentTransactions demoApi demoAddress = Inr demoResult"
proof -
  have "snd (getBlockNumber demoApi) = Inr 10000"
    by (simp add: demoApi_def)
  then have "getRecentTransactions demoApi demoAddress =
      Inr (map (\<lambda>p. toTransaction demoAddress (lookupBlock demoApi) (dateNow demoApi (fst p)) (snd p))
             [(1, selfTransfer), (3, outbound), (0, inbound)])"
    by (simp add: getRecentTransactions_eq buildTransactions_eq merged_demo survivors_demo)
  also have "\<dots> = Inr demoResult"
    by (simp add: demoResult_def toTransaction_def demo_blocks demo_now demo_values demo_amounts orElse_def Let_def)
       (simp add: arg0_def arg1_def demoAddress_def toLowerCase_def toLowerChar_def
          inbound_def selfTransfer_def outbound_def)
  finally show ?thesis .
qed

subsection \<open>Sub-ranges, delivered events\<close>

lemma chunk_multiple_step:
  assumes "(c - i) mod CHUNK_SIZE = 0" "i < c"
  shows "(c - (i + CHUNK_SIZE)) mod CHUNK_SIZE = 0" "i + CHUNK_SIZE \<le> c"
proof -
  from assms(1) obtain k where k: "c - i = CHUNK_SIZE * k"
    by (auto simp: mod_eq_0_iff_dvd dvd_def)
  have "c - (i + CHUNK_SIZE) = CHUNK_SIZE * (k - 1)"
    using k by (simp add: algebra_simps)
  then show "(c - (i + CHUNK_SIZE)) mod CHUNK_SIZE = 0"
    by simp
  have "0 < k" using k assms(2) by (simp add: CHUNK_SIZE_def) 
  then have "CHUNK_SIZE \<le> CHUNK_SIZE * k" by (simp add: CHUNK_SIZE_def)
  then show "i + CHUNK_SIZE \<le> c" using k by linarith
qed

lemma rangesFrom_below_head:
  "(currentBlock - i) mod CHUNK_SIZE = 0 \<Longrightarrow> rg \<in> set (rangesFrom i currentBlock) \<Longrightarrow>
   snd rg < currentBlock"
proof (induction i currentBlock rule: rangesFrom.induct)
  case (1 i currentBlock)
  show ?case
  proof (cases "i < currentBlock")
    case True
    have step: "(currentBlock - (i + CHUNK_SIZE)) mod CHUNK_SIZE = 0"
      and far: "i + CHUNK_SIZE \<le> currentBlock"
      using chunk_multiple_step[OF "1.prems"(1) True] by simp_all
    from "1.prems"(2) True have "rg = (i, min (i + CHUNK_SIZE - 1) currentBlock) \<or>
        rg \<in> set (rangesFrom (i + CHUNK_SIZE) currentBlock)"
      by (subst (asm) rangesFrom.simps) auto
    then show ?thesis
    proof
      assume "rg = (i, min (i + CHUNK_SIZE - 1) currentBlock)"
      then show ?thesis using far by simp
    next
      assume "rg \<in> set (rangesFrom (i + CHUNK_SIZE) currentBlock)"
      then show ?thesis using "1.IH"[OF True step] by simp
    qed
  next
    case False
    then show ?thesis using "1.prems"(2) by (subst (asm) rangesFrom.simps) simp
  qed
qed

lemma head_block_never_queried:
  assumes "SCAN_RANGE \<le> currentBlock"
    and "rg \<in> set (rangesFrom (max 0 (currentBlock - SCAN_RANGE)) currentBlock)"
  shows "snd rg < currentBlock"
proof -
  have "max 0 (currentBlock - SCAN_RANGE) = currentBlock - SCAN_RANGE"
    using assms(1) by simp
  moreover have "(currentBlock - (currentBlock - SCAN_RANGE)) mod CHUNK_SIZE = 0"
    by (simp add: SCAN_RANGE_def CHUNK_SIZE_def)
  ultimately show ?thesis using assms(2) rangesFrom_below_head[of currentBlock "currentBlock - SCAN_RANGE" rg]
    by simp
qed

lemma result_eq:
  assumes "snd (getBlockNumber api) = Inr head"
  shows "getRecentTransactions api address =
     Inr (map (\<lambda>p. toTransaction address (lookupBlock api) (dateNow api (fst p)) (snd p))
            (survivors api (mergedLogs api address head)))"
  using assms by (simp add: getRecentTransactions_eq buildTransactions_eq)

lemma survivor_delivered:
  assumes "p \<in> set (survivors api (mergedLogs api address head))"
  shows "\<exists>flt a b logs. snd (queryFilter api flt a b) = Inr logs \<and> snd p \<in> set logs"
proof -
  have "snd p \<in> set (mergedLogs api address head)"
    using assms snd_survivors_subset uniqueLogsOf_subset by blast
  from mergedLogs_delivered[OF this] show ?thesis by blast
qed

lemma survivor_nonzero:
  assumes "p \<in> set (survivors api allLogs)"
  shows "0 < arg2 (snd p)"
  using assms by (simp add: set_survivors)


lemma toTransaction_simps:
  "hash (toTransaction address blockMap now lg) = transactionHash lg"
  "type (toTransaction address blockMap now lg) =
     (if toLowerCase (arg1 lg) = toLowerCase address then In else Out)"
  "amount (toTransaction address blockMap now lg) = formatUnits (arg2 lg) 6"
  "status (toTransaction address blockMap now lg) = Confirmed"
  "to (toTransaction address blockMap now lg) = Some (arg1 lg)"
  "from (toTransaction address blockMap now lg) = Some (arg0 lg)"
  by (simp_all add: toTransaction_def Let_def)



lemma result_cases:
  obtains (failed) e where "snd (getBlockNumber provider) = Inl e"
      "getRecentTransactions provider address = Inr []"
  | (scanned) head where "snd (getBlockNumber provider) = Inr head"
      "getRecentTransactions provider address =
         Inr (map (\<lambda>p. toTransaction address (lookupBlock provider) (dateNow provider (fst p)) (snd p))
                (survivors provider (mergedLogs provider address head)))"
proof (cases "snd (getBlockNumber provider)")
  case (Inl e)
  then show ?thesis using failed by (simp add: getRecentTransactions_eq)
next
  case (Inr head)
  then show ?thesis using scanned result_eq by blast
qed




lemma demo_indices:
  "index inbound = 0" "index selfTransfer = 1" "index zeroValue = 0" "index outbound = 2"
  by (simp_all add: inbound_def selfTransfer_def zeroValue_def outbound_def)








lemma demo_delays:
  "map (\<lambda>rg. fst (queryFilter demoApi flt (fst rg) (snd rg))) [(2500, 4999), (5000, 7499), (7500, 9999)]
     = [1, 2, 3]"
  by (simp add: demoApi_def)






lemma ranges_small_head: "rangesFrom (max 0 (100 - SCAN_RANGE)) 100 = [(0, 100)]"
  by (simp add: rangesFrom.simps SCAN_RANGE_def CHUNK_SIZE_def)



section \<open>The specification, claim by claim\<close>

subsection \<open>The scanned window\<close>

text \<open>
  C1. The specification has the queried sub-ranges cover the whole window
  \<open>[start, head]\<close>, the head block included. The loop runs while \<open>i < currentBlock\<close>:
  with the head at block 1,000,000 the window starts at 992,500 and the three ranges
  that are queried end at block 999,999, so the head block is in none of them, and a
  transfer in the head block is not reported. (\<open>head_block_never_queried\<close> shows the
  same for every head from 7,500 on; \<open>ranges_small_head\<close> shows a head that is
  included, the end of a range being clamped to \<open>currentBlock\<close>.)
\<close>

theorem ranges_stop_before_head:
  "rangesFrom (max 0 (1000000 - SCAN_RANGE)) 1000000 =
     [(992500, 994999), (995000, 997499), (997500, 999999)] \<and>
   snd (getBlockNumber headApi) = Inr 1000000 \<and>
   snd (queryFilter headApi (filterIn demoAddress) 1000000 1000000) = Inr [headTransfer] \<and>
   getRecentTransactions headApi demoAddress = Inr []"
proof -
  have ranges: "rangesFrom (max 0 (1000000 - SCAN_RANGE)) 1000000 =
     [(992500, 994999), (995000, 997499), (997500, 999999)]"
    by (simp add: rangesFrom.simps SCAN_RANGE_def CHUNK_SIZE_def)
  have head: "snd (getBlockNumber headApi) = Inr 1000000"
    by (simp add: headApi_def)
  have "mergedLogs headApi demoAddress 1000000 = []"
    by (simp add: mergedLogs_def ranges chunkLogs_def headApi_def)
  then have "survivors headApi (mergedLogs headApi demoAddress 1000000) = []"
    by (simp add: survivors_def uniqueLogsOf_def mapValues_def sortBy_def)
  then have "getRecentTransactions headApi demoAddress = Inr []"
    using result_eq[OF head, of demoAddress] by simp
  moreover have "snd (queryFilter headApi (filterIn demoAddress) 1000000 1000000) = Inr [headTransfer]"
    by (simp add: headApi_def)
  ultimately show ?thesis using ranges head by blast
qed

subsection \<open>Balances\<close>

text \<open>
  C10. \<^verbatim>\<open>getETHBalance\<close> and \<^verbatim>\<open>getUSDCBalance\<close> always fulfil with a string, for
  every address and every answer of the provider, and a rejected balance request
  makes them fulfil with \<^verbatim>\<open>"0.00"\<close>.
\<close>

theorem balances_never_raise:
  "(\<exists>s. getETHBalance provider address = Inr s) \<and>
   (\<exists>s. getUSDCBalance provider address = Inr s) \<and>
   (\<forall>e. snd (getBalance provider address) = Inl e \<longrightarrow>
        getETHBalance provider address = Inr ''0.00'') \<and>
   (\<forall>e. snd (balanceOf provider address) = Inl e \<longrightarrow>
        getUSDCBalance provider address = Inr ''0.00'')"
  by (simp add: getETHBalance_def getUSDCBalance_def try_catch_def split: sum.splits)

theorem balances_never_raise_witness:
  "getETHBalance demoApi demoAddress = Inr ''0.00'' \<and>
   getUSDCBalance (demoApi\<lparr>balanceOf := \<lambda>a. (1, Inl (Thrown ''network''))\<rparr>) demoAddress = Inr ''0.00''"
  using balances_never_raise[of demoApi demoAddress]
    balances_never_raise[of "demoApi\<lparr>balanceOf := \<lambda>a. (1, Inl (Thrown ''network''))\<rparr>" demoAddress]
  by (simp add: demoApi_def)

subsection \<open>Failures never escape\<close>

text \<open>
  C2. \<^verbatim>\<open>getRecentTransactions\<close> always fulfils with a list: whatever the read-API
  answers, the call does not reject. When the body of the outer \<^verbatim>\<open>try\<close> throws
  the result is the empty list; so it is when the head-block lookup fails, and when
  every filter query fails.
\<close>

theorem getRecentTransactions_never_raises:
  "(\<exists>txs. getRecentTransactions provider address = Inr txs) \<and>
   (\<forall>e. recentTransactionsBody provider address = Inl e \<longrightarrow>
        getRecentTransactions provider address = Inr []) \<and>
   (\<forall>e. snd (getBlockNumber provider) = Inl e \<longrightarrow>
        getRecentTransactions provider address = Inr []) \<and>
   ((\<forall>flt a b. \<exists>e. snd (queryFilter provider flt a b) = Inl e) \<longrightarrow>
        getRecentTransactions provider address = Inr [])"
proof (intro conjI allI impI)
  show "\<exists>txs. getRecentTransactions provider address = Inr txs"
    by (simp add: getRecentTransactions_def try_catch_def split: sum.splits)
next
  fix e assume "recentTransactionsBody provider address = Inl e"
  then show "getRecentTransactions provider address = Inr []"
    by (simp add: getRecentTransactions_def try_catch_def)
next
  fix e assume "snd (getBlockNumber provider) = Inl e"
  then show "getRecentTransactions provider address = Inr []"
    by (simp add: getRecentTransactions_eq)
next
  assume fail: "\<forall>flt a b. \<exists>e. snd (queryFilter provider flt a b) = Inl e"
  have "chunkLogs provider flt rg = []" for flt rg
    using fail[rule_format, of flt "fst rg" "snd rg"] by (auto simp: chunkLogs_def)
  then have "mergedLogs provider address head = []" for head
    by (simp add: mergedLogs_def Let_def)
  moreover have "buildTransactions provider address [] = []"
    by (simp add: buildTransactions_eq survivors_def uniqueLogsOf_def mapValues_def sortBy_def)
  ultimately show "getRecentTransactions provider address = Inr []"
    by (simp add: getRecentTransactions_eq split: sum.splits)
qed

theorem getRecentTransactions_never_raises_witness:
  "getRecentTransactions (demoApi\<lparr>getBlockNumber := (1, Inl (Thrown ''network''))\<rparr>) demoAddress = Inr [] \<and>
   getRecentTransactions (demoApi\<lparr>queryFilter := \<lambda>flt a b. (1, Inl (Thrown ''rate limited''))\<rparr>) demoAddress = Inr []"
  using getRecentTransactions_never_raises[of "demoApi\<lparr>getBlockNumber := (1, Inl (Thrown ''network''))\<rparr>" demoAddress]
    getRecentTransactions_never_raises[of "demoApi\<lparr>queryFilter := \<lambda>flt a b. (1, Inl (Thrown ''rate limited''))\<rparr>" demoAddress]
  by simp

subsection \<open>The returned list\<close>





text \<open>
  C4. The returned list is sorted by timestamp, newest first: every entry's timestamp
  is at least that of each later entry.
\<close>

theorem getRecentTransactions_sorted:
  "\<exists>txs. getRecentTransactions provider address = Inr txs \<and>
     sorted_wrt (\<lambda>a b. timestamp b \<le> timestamp a) txs"
proof (cases "snd (getBlockNumber provider)")
  case (Inl e)
  then show ?thesis by (simp add: getRecentTransactions_eq)
next
  case (Inr head)
  then show ?thesis
    by (simp add: getRecentTransactions_eq buildTransactions_def Let_def sorted_sortBy_timestamp)
qed

theorem getRecentTransactions_sorted_witness:
  "getRecentTransactions demoApi demoAddress = Inr demoResult \<and>
   map timestamp demoResult = [1800000000001, 1700010000000, 1700000000000] \<and>
   sorted_wrt (\<lambda>a b. timestamp b \<le> timestamp a) demoResult"
  using getRecentTransactions_sorted[of demoApi demoAddress]
  by (simp add: demo_eval) (simp add: demoResult_def)

text \<open>
  C5. Every returned amount parses to a number strictly greater than zero, and every
  returned Transaction comes from a delivered event whose raw value is not zero:
  events of value zero are left out.
\<close>

theorem getRecentTransactions_amounts_positive:
  "\<exists>txs. getRecentTransactions provider address = Inr txs \<and>
     (\<forall>tx \<in> set txs.
        (\<exists>q. parseFloat (amount tx) = Some q \<and> 0 < q) \<and>
        (\<exists>lg. (\<exists>flt a b logs. snd (queryFilter provider flt a b) = Inr logs \<and> lg \<in> set logs) \<and>
              hash tx = transactionHash lg \<and> amount tx = formatUnits (arg2 lg) 6 \<and> 0 < arg2 lg))"
proof (cases rule: result_cases[of provider address])
  case (failed e)
  then show ?thesis by simp
next
  case (scanned head)
  let ?S = "survivors provider (mergedLogs provider address head)"
  let ?g = "\<lambda>p. toTransaction address (lookupBlock provider) (dateNow provider (fst p)) (snd p)"
  have "(\<exists>q. parseFloat (amount tx) = Some q \<and> 0 < q) \<and>
        (\<exists>lg. (\<exists>flt a b logs. snd (queryFilter provider flt a b) = Inr logs \<and> lg \<in> set logs) \<and>
              hash tx = transactionHash lg \<and> amount tx = formatUnits (arg2 lg) 6 \<and> 0 < arg2 lg)"
    if "tx \<in> set (map ?g ?S)" for tx
  proof -
    from that obtain p where p: "p \<in> set ?S" "tx = ?g p" by auto
    have pos: "0 < arg2 (snd p)" using p(1) by (rule survivor_nonzero)
    have "parseFloat (amount tx) = Some (of_nat (arg2 (snd p)) / 10 ^ 6)"
      by (simp add: p(2) toTransaction_simps parseFloat_formatUnits)
    moreover have "(0::rat) < of_nat (arg2 (snd p)) / 10 ^ 6"
      using pos by simp
    moreover have "\<exists>flt a b logs. snd (queryFilter provider flt a b) = Inr logs \<and> snd p \<in> set logs"
      using p(1) by (rule survivor_delivered)
    moreover have "hash tx = transactionHash (snd p)" "amount tx = formatUnits (arg2 (snd p)) 6"
      by (simp_all add: p(2) toTransaction_simps)
    ultimately show ?thesis using pos by blast
  qed
  then show ?thesis using scanned(2) by blast
qed

theorem getRecentTransactions_amounts_positive_witness:
  "getRecentTransactions demoApi demoAddress = Inr demoResult \<and>
   list_all (\<lambda>tx. \<exists>q. parseFloat (amount tx) = Some q \<and> 0 < q) demoResult \<and>
   arg2 zeroValue = 0 \<and>
   list_all (\<lambda>tx. hash tx \<noteq> transactionHash zeroValue) demoResult"
proof -
  from getRecentTransactions_amounts_positive[of demoApi demoAddress]
  have "list_all (\<lambda>tx. \<exists>q. parseFloat (amount tx) = Some q \<and> 0 < q) demoResult"
    unfolding demo_eval list_all_iff by blast
  moreover have "list_all (\<lambda>tx. hash tx \<noteq> transactionHash zeroValue) demoResult"
    by (simp add: demoResult_def zeroValue_def)
  ultimately show ?thesis using demo_eval demo_values(3) by blast
qed

text \<open>
  C6. The returned Transactions stand, position by position, for delivered events of
  non-zero value, the ones that survive. The direction of each is \<open>In\<close> exactly when
  the event's recipient and the queried address are equal after \<^verbatim>\<open>toLowerCase\<close>,
  and \<open>Out\<close> otherwise; its amount is the raw value printed with six decimals, a
  string whose value is the raw value divided by \<open>10\<^sup>6\<close>; its status is \<open>Confirmed\<close>.
  The raw value 5,000,000 prints as \<^verbatim>\<open>"5.0"\<close>.
\<close>

theorem getRecentTransactions_mapping:
  "(\<exists>txs evs. getRecentTransactions provider address = Inr txs \<and>
      (\<forall>lg \<in> set evs.
         (\<exists>flt a b logs. snd (queryFilter provider flt a b) = Inr logs \<and> lg \<in> set logs) \<and>
         0 < arg2 lg) \<and>
      list_all2 (\<lambda>tx lg.
         hash tx = transactionHash lg \<and>
         (type tx = In \<longleftrightarrow> toLowerCase (arg1 lg) = toLowerCase address) \<and>
         (type tx = Out \<longleftrightarrow> toLowerCase (arg1 lg) \<noteq> toLowerCase address) \<and>
         amount tx = formatUnits (arg2 lg) 6 \<and>
         parseFloat (amount tx) = Some (of_nat (arg2 lg) / 10 ^ 6) \<and>
         status tx = Confirmed) txs evs) \<and>
   formatUnits 5000000 6 = ''5.0''"
proof (rule conjI)
  show "formatUnits 5000000 6 = ''5.0''"
    by (rule demo_amounts(1))
next
  show "\<exists>txs evs. getRecentTransactions provider address = Inr txs \<and>
      (\<forall>lg \<in> set evs.
         (\<exists>flt a b logs. snd (queryFilter provider flt a b) = Inr logs \<and> lg \<in> set logs) \<and>
         0 < arg2 lg) \<and>
      list_all2 (\<lambda>tx lg.
         hash tx = transactionHash lg \<and>
         (type tx = In \<longleftrightarrow> toLowerCase (arg1 lg) = toLowerCase address) \<and>
         (type tx = Out \<longleftrightarrow> toLowerCase (arg1 lg) \<noteq> toLowerCase address) \<and>
         amount tx = formatUnits (arg2 lg) 6 \<and>
         parseFloat (amount tx) = Some (of_nat (arg2 lg) / 10 ^ 6) \<and>
         status tx = Confirmed) txs evs"
  proof (cases rule: result_cases[of provider address])
    case (failed e)
    then show ?thesis by (intro exI[of _ "[]"]) simp
  next
    case (scanned head)
    let ?S = "survivors provider (mergedLogs provider address head)"
    let ?g = "\<lambda>p. toTransaction address (lookupBlock provider) (dateNow provider (fst p)) (snd p)"
    have rel: "list_all2 (\<lambda>tx lg.
         hash tx = transactionHash lg \<and>
         (type tx = In \<longleftrightarrow> toLowerCase (arg1 lg) = toLowerCase address) \<and>
         (type tx = Out \<longleftrightarrow> toLowerCase (arg1 lg) \<noteq> toLowerCase address) \<and>
         amount tx = formatUnits (arg2 lg) 6 \<and>
         parseFloat (amount tx) = Some (of_nat (arg2 lg) / 10 ^ 6) \<and>
         status tx = Confirmed) (map ?g ?S) (map snd ?S)"
      by (simp add: list_all2_map1 list_all2_map2 list_all2_same toTransaction_simps
          parseFloat_formatUnits)
    have evs: "\<forall>lg \<in> set (map snd ?S).
         (\<exists>flt a b logs. snd (queryFilter provider flt a b) = Inr logs \<and> lg \<in> set logs) \<and>
         0 < arg2 lg"
      using survivor_delivered[of _ provider address head] survivor_nonzero[of _ provider]
      by auto
    show ?thesis
      by (rule exI[of _ "map ?g ?S"], rule exI[of _ "map snd ?S"]) (intro conjI scanned(2) rel evs)
  qed
qed

theorem getRecentTransactions_mapping_witness:
  "getRecentTransactions demoApi demoAddress = Inr demoResult \<and>
   (\<exists>evs. length evs = 3 \<and>
      list_all2 (\<lambda>tx lg.
         hash tx = transactionHash lg \<and>
         (type tx = In \<longleftrightarrow> toLowerCase (arg1 lg) = toLowerCase demoAddress) \<and>
         (type tx = Out \<longleftrightarrow> toLowerCase (arg1 lg) \<noteq> toLowerCase demoAddress) \<and>
         amount tx = formatUnits (arg2 lg) 6 \<and>
         parseFloat (amount tx) = Some (of_nat (arg2 lg) / 10 ^ 6) \<and>
         status tx = Confirmed) demoResult evs) \<and>
   map type demoResult = [In, Out, In] \<and>
   map amount demoResult = [''1.5'', ''0.25'', ''5.0''] \<and>
   map status demoResult = [Confirmed, Confirmed, Confirmed] \<and>
   arg1 inbound = ''0xABCD'' \<and> demoAddress = ''0xabcd''"
proof -
  from getRecentTransactions_mapping[of demoApi demoAddress]
  obtain evs where evs: "list_all2 (\<lambda>tx lg.
         hash tx = transactionHash lg \<and>
         (type tx = In \<longleftrightarrow> toLowerCase (arg1 lg) = toLowerCase demoAddress) \<and>
         (type tx = Out \<longleftrightarrow> toLowerCase (arg1 lg) \<noteq> toLowerCase demoAddress) \<and>
         amount tx = formatUnits (arg2 lg) 6 \<and>
         parseFloat (amount tx) = Some (of_nat (arg2 lg) / 10 ^ 6) \<and>
         status tx = Confirmed) demoResult evs"
    unfolding demo_eval by blast
  have "length evs = 3"
    using list_all2_lengthD[OF evs] by (simp add: demoResult_def)
  moreover have "map type demoResult = [In, Out, In]"
    "map amount demoResult = [''1.5'', ''0.25'', ''5.0'']"
    "map status demoResult = [Confirmed, Confirmed, Confirmed]"
    "arg1 inbound = ''0xABCD''" "demoAddress = ''0xabcd''"
    by (simp_all add: demoResult_def arg1_def inbound_def demoAddress_def)
  ultimately show ?thesis using demo_eval evs by blast
qed

subsection \<open>Failures along the way\<close>







subsection \<open>Completion order\<close>



end
